theory Spec2Isabelle
  imports Main "HOL-Library.AList"
begin

section \<open>Roles and route permissions (lib/auth/roles)\<close>

text \<open>
  \<^verbatim>\<open>export type Role = 'admin' | 'agent'\<close> and the table
  \<^verbatim>\<open>ROLE_PERMISSIONS: Record<Role, string[]>\<close>.
\<close>

datatype Role = Admin | Agent

fun role_name :: "Role \<Rightarrow> string" where
  "role_name Admin = ''admin''"
| "role_name Agent = ''agent''"

fun ROLE_PERMISSIONS :: "Role \<Rightarrow> string list" where
  "ROLE_PERMISSIONS Admin = [''read'', ''write'', ''delete'', ''admin'']"
| "ROLE_PERMISSIONS Agent = [''read'', ''write'']"

text \<open>
  The three route patterns are regular expressions anchored at the start of the path and
  open at the end. They are built from literals, the class \<^verbatim>\<open>[^/]+\<close>, alternation and
  sequencing. \<open>rx_match r s\<close> lists, in the order a backtracking matcher tries them, the
  remainders of \<open>s\<close> after each way \<open>r\<close> can match a prefix of \<open>s\<close>; \<open>rx_test\<close> is
  \<^verbatim>\<open>RegExp.prototype.test\<close> for such an anchored pattern without flags.
\<close>

datatype rx = Lit string | PlusNot char | Alt rx rx | Seq rx rx

fun plus_not :: "char \<Rightarrow> string \<Rightarrow> string list" where
  "plus_not c [] = []"
| "plus_not c (x # xs) = (if x = c then [] else plus_not c xs @ [xs])"

fun lit_match :: "string \<Rightarrow> string \<Rightarrow> string list" where
  "lit_match [] s = [s]"
| "lit_match (c # cs) [] = []"
| "lit_match (c # cs) (x # xs) = (if c = x then lit_match cs xs else [])"

fun rx_match :: "rx \<Rightarrow> string \<Rightarrow> string list" where
  "rx_match (Lit l) s = lit_match l s"
| "rx_match (PlusNot c) s = plus_not c s"
| "rx_match (Alt a b) s = rx_match a s @ rx_match b s"
| "rx_match (Seq a b) s = concat (map (rx_match b) (rx_match a s))"

definition rx_test :: "rx \<Rightarrow> string \<Rightarrow> bool" where
  "rx_test r s = (rx_match r s \<noteq> [])"

record route_rule =
  rmethod :: string
  pattern :: rx
  requires :: string

definition ROUTE_PERMISSIONS :: "route_rule list" where
  "ROUTE_PERMISSIONS =
    [ \<lparr>rmethod = ''DELETE'', pattern = Lit ''/api/'', requires = ''delete''\<rparr>,
      \<lparr>rmethod = ''PATCH'', pattern = Lit ''/api/agents'', requires = ''write''\<rparr>,
      \<lparr>rmethod = ''POST'',
       pattern = Seq (Lit ''/api/posts/'')
                  (Seq (PlusNot CHR ''/'')
                    (Seq (Lit ''/'') (Alt (Lit ''upvote'') (Lit ''downvote'')))),
       requires = ''write''\<rparr> ]"

definition rule_matches :: "route_rule \<Rightarrow> string \<Rightarrow> string \<Rightarrow> bool" where
  "rule_matches rule m pathname = (rmethod rule = m \<and> rx_test (pattern rule) pathname)"

text \<open>
  The \<^verbatim>\<open>for (const rule of ROUTE_PERMISSIONS)\<close> loop with its early return, and the default
  after the loop.
\<close>

fun resolve :: "route_rule list \<Rightarrow> string \<Rightarrow> string \<Rightarrow> string" where
  "resolve [] m pathname = (if m = ''GET'' \<or> m = ''HEAD'' then ''read'' else ''write'')"
| "resolve (rule # rules) m pathname =
     (if rule_matches rule m pathname then requires rule else resolve rules m pathname)"

definition getRequiredPermission :: "string \<Rightarrow> string \<Rightarrow> string" where
  "getRequiredPermission m pathname = resolve ROUTE_PERMISSIONS m pathname"

section \<open>Session store (lib/auth/store)\<close>

text \<open>
  The two module-level tables are JavaScript \<^verbatim>\<open>Map\<close>s; they are association lists here,
  in insertion order: \<^verbatim>\<open>Map.set\<close> replaces the value of a present key in place and appends
  an absent one (\<open>AList.update\<close>), \<^verbatim>\<open>Map.delete\<close> removes the key (\<open>AList.delete\<close>),
  \<^verbatim>\<open>Map.get\<close> is \<open>map_of\<close>. A \<^verbatim>\<open>Set<string>\<close> is a duplicate-free list in
  insertion order. \<^verbatim>\<open>Date.now()\<close> and \<^verbatim>\<open>randomUUID()\<close> are read from the outside: each
  call of them is an argument of the function that makes it. Times are milliseconds.
\<close>

record Session =
  moltbookApiKey :: string
  userId :: string
  expiresAt :: int
  used :: bool

record store =
  sessions :: "(string \<times> Session) list"
  userSessions :: "(string \<times> string list) list"

definition SESSION_TTL_MS :: int where
  "SESSION_TTL_MS = 7 * 24 * 60 * 60 * 1000"

definition set_add :: "string list \<Rightarrow> string \<Rightarrow> string list" where
  "set_add ids x = (if x \<in> set ids then ids else ids @ [x])"

definition set_delete :: "string list \<Rightarrow> string \<Rightarrow> string list" where
  "set_delete ids x = removeAll x ids"

text \<open>One iteration of the loop of \<^verbatim>\<open>pruneExpired\<close>, and the loop over the entries.\<close>

definition prune_entry :: "int \<Rightarrow> string \<Rightarrow> Session \<Rightarrow> store \<Rightarrow> store" where
  "prune_entry now sid session st =
     (if expiresAt session < now \<or> used session
      then st\<lparr> sessions := AList.delete sid (sessions st),
               userSessions :=
                 (case map_of (userSessions st) (userId session) of
                    None \<Rightarrow> userSessions st
                  | Some ids \<Rightarrow>
                      AList.update (userId session) (set_delete ids sid) (userSessions st)) \<rparr>
      else st)"

fun prune_loop :: "int \<Rightarrow> (string \<times> Session) list \<Rightarrow> store \<Rightarrow> store" where
  "prune_loop now [] st = st"
| "prune_loop now ((sid, session) # rest) st = prune_loop now rest (prune_entry now sid session st)"

definition pruneExpired :: "int \<Rightarrow> store \<Rightarrow> store" where
  "pruneExpired now st = prune_loop now (sessions st) st"

definition createSession :: "string \<Rightarrow> string \<Rightarrow> string \<Rightarrow> int \<Rightarrow> store \<Rightarrow> string \<times> store" where
  "createSession uid apiKey uuid now st =
     (let st1 = st\<lparr> sessions :=
                  AList.update uuid
                    \<lparr>moltbookApiKey = apiKey, userId = uid,
                     expiresAt = now + SESSION_TTL_MS, used = False\<rparr> (sessions st) \<rparr>;
          us = (case map_of (userSessions st1) uid of
                  None \<Rightarrow> AList.update uid [] (userSessions st1)
                | Some _ \<Rightarrow> userSessions st1);
          ids = (case map_of us uid of None \<Rightarrow> [] | Some ids \<Rightarrow> ids)
      in (uuid, st1\<lparr> userSessions := AList.update uid (set_add ids uuid) us \<rparr>))"

record consumed =
  c_moltbookApiKey :: string
  c_userId :: string
  newRefreshToken :: string

text \<open>
  \<^verbatim>\<open>consumeSession(refreshToken)\<close>: \<open>now\<close> is the clock read by the expiry test, \<open>uuid\<close>
  and \<open>now'\<close> are the identifier and the clock read by the nested \<^verbatim>\<open>createSession\<close>.
  \<^verbatim>\<open>session.used = true\<close> writes to the object held by the table.
\<close>

definition consumeSession ::
  "string \<Rightarrow> int \<Rightarrow> string \<Rightarrow> int \<Rightarrow> store \<Rightarrow> consumed option \<times> store" where
  "consumeSession refreshToken now uuid now' st =
     (case map_of (sessions st) refreshToken of
        None \<Rightarrow> (None, st)
      | Some session \<Rightarrow>
          if expiresAt session < now
          then (None, st\<lparr> sessions := AList.delete refreshToken (sessions st) \<rparr>)
          else if used session then (None, st)
          else
            (let st1 = st\<lparr> sessions :=
                         AList.update refreshToken (session\<lparr>used := True\<rparr>) (sessions st) \<rparr>;
                 (new_id, st2) =
                   createSession (userId session) (moltbookApiKey session) uuid now' st1
             in (Some \<lparr>c_moltbookApiKey = moltbookApiKey session,
                       c_userId = userId session,
                       newRefreshToken = new_id\<rparr>, st2)))"

fun first_live_key :: "(string \<times> Session) list \<Rightarrow> int \<Rightarrow> string list \<Rightarrow> string option" where
  "first_live_key ss now [] = None"
| "first_live_key ss now (sid # ids) =
     (case map_of ss sid of
        None \<Rightarrow> first_live_key ss now ids
      | Some session \<Rightarrow>
          if \<not> used session \<and> expiresAt session > now then Some (moltbookApiKey session)
          else first_live_key ss now ids)"

definition getMoltbookKey :: "string \<Rightarrow> int \<Rightarrow> store \<Rightarrow> string option" where
  "getMoltbookKey uid now st =
     (case map_of (userSessions st) uid of
        None \<Rightarrow> None
      | Some ids \<Rightarrow> first_live_key (sessions st) now ids)"

definition invalidateUser :: "string \<Rightarrow> store \<Rightarrow> store" where
  "invalidateUser uid st =
     (case map_of (userSessions st) uid of
        None \<Rightarrow> st
      | Some ids \<Rightarrow>
          st\<lparr> sessions := fold AList.delete ids (sessions st),
              userSessions := AList.delete uid (userSessions st) \<rparr>)"

text \<open>
  The calls a sequential run of the process can make on the store, each with the values
  it reads from the clock and from \<^verbatim>\<open>randomUUID\<close>; the hourly timer is a \<open>PruneExpired\<close>.
\<close>

datatype store_op =
    CreateSession string string string int
  | ConsumeSession string int string int
  | GetMoltbookKey string int
  | InvalidateUser string
  | PruneExpired int

fun exec_op :: "store_op \<Rightarrow> store \<Rightarrow> store" where
  "exec_op (CreateSession uid apiKey uuid now) st = snd (createSession uid apiKey uuid now st)"
| "exec_op (ConsumeSession tok now uuid now') st = snd (consumeSession tok now uuid now' st)"
| "exec_op (GetMoltbookKey uid now) st = st"
| "exec_op (InvalidateUser uid) st = invalidateUser uid st"
| "exec_op (PruneExpired now) st = pruneExpired now st"

fun exec_ops :: "store_op list \<Rightarrow> store \<Rightarrow> store" where
  "exec_ops [] st = st"
| "exec_ops (op # ops) st = exec_ops ops (exec_op op st)"

text \<open>The identifier an operation draws from \<^verbatim>\<open>randomUUID\<close>, if it draws one.\<close>

fun uuid_of :: "store_op \<Rightarrow> string option" where
  "uuid_of (CreateSession uid apiKey uuid now) = Some uuid"
| "uuid_of (ConsumeSession tok now uuid now') = Some uuid"
| "uuid_of (GetMoltbookKey uid now) = None"
| "uuid_of (InvalidateUser uid) = None"
| "uuid_of (PruneExpired now) = None"

section \<open>Access tokens (lib/auth/jwt)\<close>

text \<open>
  \<^verbatim>\<open>process.env\<close> is a map from names to strings; \<^verbatim>\<open>a ?? b\<close> takes \<open>b\<close> when the
  variable is not set. The argument of \<^verbatim>\<open>signAccessToken\<close> is a \<open>token_input\<close>; the
  decoded claim set of a token is an \<open>AccessTokenPayload\<close>, whose \<open>p_permissions\<close> is
  \<open>None\<close> when the claim is not an array, the case the gate tests with
  \<^verbatim>\<open>Array.isArray\<close>.
\<close>

type_synonym env = "string \<rightharpoonup> string"

datatype auth_error = KeyUnavailable | VerificationFailed

record token_input =
  sub :: string
  role :: string
  permissions :: "string list"

record jwt_header =
  alg :: string

record AccessTokenPayload =
  p_sub :: string
  p_role :: string
  p_permissions :: "string list option"
  p_iat :: int
  p_exp :: int
  p_iss :: string
  p_aud :: string

definition jwt_issuer :: "env \<Rightarrow> string" where
  "jwt_issuer e = (case e ''JWT_ISSUER'' of None \<Rightarrow> ''moltbook-frontend'' | Some v \<Rightarrow> v)"

definition jwt_audience :: "env \<Rightarrow> string" where
  "jwt_audience e = (case e ''JWT_AUDIENCE'' of None \<Rightarrow> ''moltbook-api'' | Some v \<Rightarrow> v)"

text \<open>
  \<^verbatim>\<open>signAccessToken\<close>. The signing primitive of the JWT library is the parameter
  \<open>jose_sign\<close> (key, protected header, claim set to compact token); \<open>getPrivateKey\<close> is
  the awaited result of the key provider, whose failure is thrown on. \<open>now\<close> is the clock
  in milliseconds; \<^verbatim>\<open>setIssuedAt()\<close> stores whole seconds and \<^verbatim>\<open>'15m'\<close> is 900 seconds.
\<close>

definition signAccessToken ::
  "('k \<Rightarrow> jwt_header \<Rightarrow> AccessTokenPayload \<Rightarrow> 'tok) \<Rightarrow> env \<Rightarrow> auth_error + 'k \<Rightarrow> int \<Rightarrow>
   token_input \<Rightarrow> auth_error + 'tok" where
  "signAccessToken jose_sign e getPrivateKey now payload =
     (case getPrivateKey of
        Inl err \<Rightarrow> Inl err
      | Inr privateKey \<Rightarrow>
          (let issuer = jwt_issuer e;
               audience = jwt_audience e;
               iat = now div 1000
           in Inr (jose_sign privateKey \<lparr>alg = ''RS256''\<rparr>
                 \<lparr>p_sub = sub payload, p_role = role payload,
                  p_permissions = Some (permissions payload),
                  p_iat = iat, p_exp = iat + 15 * 60,
                  p_iss = issuer, p_aud = audience\<rparr>)))"

record verify_options =
  algorithms :: "string list"
  issuer :: string
  audience :: string

text \<open>
  Modelled from the spec: \<^verbatim>\<open>jwtVerify\<close> of the JWT library, which is not part of the
  sources. The spec (4.2) has it check the signature against the public key, that the
  algorithm is the expected one, issuer and audience equality, and expiry, and fail with
  one error on any of them. The signature check and the decoding are the parameter
  \<open>jose_open\<close>, which returns the header and the claim set of a token that the key
  accepts. A token is expired from the second of its \<open>exp\<close> claim on.
\<close>

definition jwtVerify ::
  "('p \<Rightarrow> 'tok \<Rightarrow> (jwt_header \<times> AccessTokenPayload) option) \<Rightarrow> 'tok \<Rightarrow> 'p \<Rightarrow> verify_options \<Rightarrow>
   int \<Rightarrow> auth_error + AccessTokenPayload" where
  "jwtVerify jose_open token publicKey opts now =
     (case jose_open publicKey token of
        None \<Rightarrow> Inl VerificationFailed
      | Some (header, payload) \<Rightarrow>
          if alg header \<notin> set (algorithms opts) then Inl VerificationFailed
          else if p_iss payload \<noteq> issuer opts then Inl VerificationFailed
          else if p_aud payload \<noteq> audience opts then Inl VerificationFailed
          else if p_exp payload \<le> now div 1000 then Inl VerificationFailed
          else Inr payload)"

definition verifyAccessToken ::
  "('p \<Rightarrow> 'tok \<Rightarrow> (jwt_header \<times> AccessTokenPayload) option) \<Rightarrow> env \<Rightarrow> auth_error + 'p \<Rightarrow> int \<Rightarrow>
   'tok \<Rightarrow> auth_error + AccessTokenPayload" where
  "verifyAccessToken jose_open e getPublicKey now token =
     (case getPublicKey of
        Inl err \<Rightarrow> Inl err
      | Inr publicKey \<Rightarrow>
          (let issuer = jwt_issuer e;
               audience = jwt_audience e
           in jwtVerify jose_open token publicKey
                \<lparr>algorithms = [''RS256''], issuer = issuer, audience = audience\<rparr> now))"

section \<open>Login and refresh routes (app/api/auth)\<close>

text \<open>
  A JavaScript string is the list of the bytes of its UTF-8 encoding. The comparisons,
  prefixes and patterns of the code involve ASCII characters only and read the same on
  bytes as on code units. String helpers of the routes: \<^verbatim>\<open>split(',')\<close>, \<^verbatim>\<open>trim()\<close> and
  \<^verbatim>\<open>filter(Boolean)\<close>, which drops the empty strings.

  \<^verbatim>\<open>trim()\<close> removes the white space and the line terminators of the language from both
  ends: U+0009 to U+000D, U+0020, U+00A0, U+1680, U+2000 to U+200A, U+2028, U+2029,
  U+202F, U+205F, U+3000 and U+FEFF. \<open>WHITE_SPACE\<close> lists their encodings;
  \<open>strip_start\<close> removes them from the front for as long as one is there.
\<close>

fun split_on :: "char \<Rightarrow> string \<Rightarrow> string list" where
  "split_on c [] = [[]]"
| "split_on c (x # xs) =
     (if x = c then [] # split_on c xs
      else (case split_on c xs of [] \<Rightarrow> [[x]] | w # ws \<Rightarrow> (x # w) # ws))"

definition WHITE_SPACE :: "string list" where
  "WHITE_SPACE =
     [[CHR 0x09], [CHR 0x0A], [CHR 0x0B], [CHR 0x0C], [CHR 0x0D], [CHR 0x20],
      [CHR 0xC2, CHR 0xA0], [CHR 0xE1, CHR 0x9A, CHR 0x80],
      [CHR 0xE2, CHR 0x80, CHR 0x80], [CHR 0xE2, CHR 0x80, CHR 0x81],
      [CHR 0xE2, CHR 0x80, CHR 0x82], [CHR 0xE2, CHR 0x80, CHR 0x83],
      [CHR 0xE2, CHR 0x80, CHR 0x84], [CHR 0xE2, CHR 0x80, CHR 0x85],
      [CHR 0xE2, CHR 0x80, CHR 0x86], [CHR 0xE2, CHR 0x80, CHR 0x87],
      [CHR 0xE2, CHR 0x80, CHR 0x88], [CHR 0xE2, CHR 0x80, CHR 0x89],
      [CHR 0xE2, CHR 0x80, CHR 0x8A], [CHR 0xE2, CHR 0x80, CHR 0xA8],
      [CHR 0xE2, CHR 0x80, CHR 0xA9], [CHR 0xE2, CHR 0x80, CHR 0xAF],
      [CHR 0xE2, CHR 0x81, CHR 0x9F], [CHR 0xE3, CHR 0x80, CHR 0x80],
      [CHR 0xEF, CHR 0xBB, CHR 0xBF]]"

fun match_prefix :: "string list \<Rightarrow> string \<Rightarrow> string option" where
  "match_prefix [] s = None"
| "match_prefix (w # ws) s =
     (if w \<noteq> [] \<and> take (length w) s = w then Some (drop (length w) s) else match_prefix ws s)"

function strip_start :: "string list \<Rightarrow> string \<Rightarrow> string" where
  "strip_start ws s = (case match_prefix ws s of None \<Rightarrow> s | Some r \<Rightarrow> strip_start ws r)"
  by pat_completeness auto
termination
proof (relation "measure (\<lambda>(ws, s). length s)")
  show "wf (measure (\<lambda>(ws :: string list, s :: string). length s))" by simp
next
  fix ws :: "string list" and s r :: string
  assume "match_prefix ws s = Some r"
  then have "length r < length s"
  proof (induction ws)
    case Nil
    then show ?case by simp
  next
    case (Cons w ws)
    show ?case
    proof (cases "w \<noteq> [] \<and> take (length w) s = w")
      case True
      then have "length (take (length w) s) = length w" by simp
      then have le: "length w \<le> length s" by simp
      from True have pos: "0 < length w" by simp
      from le pos have less: "length s - length w < length s" by arith
      from True Cons.prems have "r = drop (length w) s" by simp
      with less show ?thesis by simp
    next
      case False
      with Cons show ?thesis by auto
    qed
  qed
  then show "((ws, r), (ws, s)) \<in> measure (\<lambda>(ws, s). length s)" by simp
qed

definition trim :: "string \<Rightarrow> string" where
  "trim s = rev (strip_start (map rev WHITE_SPACE) (rev (strip_start WHITE_SPACE s)))"

definition admin_ids :: "env \<Rightarrow> string list" where
  "admin_ids e =
     filter (\<lambda>s. s \<noteq> [])
       (map trim (split_on CHR '','' (case e ''ADMIN_USER_IDS'' of None \<Rightarrow> [] | Some v \<Rightarrow> v)))"

text \<open>
  \<^verbatim>\<open>request.headers.get('x-forwarded-for')?.split(',')[0].trim() ?? 'unknown'\<close>
\<close>

definition client_ip :: "string option \<Rightarrow> string" where
  "client_ip forwarded =
     (case forwarded of
        None \<Rightarrow> ''unknown''
      | Some v \<Rightarrow> (case split_on CHR '','' v of [] \<Rightarrow> [] | w # ws \<Rightarrow> trim w))"

text \<open>The rate limiter of the login route: the table \<^verbatim>\<open>loginAttempts\<close>.\<close>

record attempt =
  count :: nat
  windowStart :: int

type_synonym limiter = "(string \<times> attempt) list"

definition RATE_WINDOW_MS :: int where
  "RATE_WINDOW_MS = 15 * 60 * 1000"

definition RATE_LIMIT :: nat where
  "RATE_LIMIT = 10"

definition checkRateLimit :: "string \<Rightarrow> int \<Rightarrow> limiter \<Rightarrow> bool \<times> limiter" where
  "checkRateLimit ip now loginAttempts =
     (case map_of loginAttempts ip of
        None \<Rightarrow> (True, AList.update ip \<lparr>count = 1, windowStart = now\<rparr> loginAttempts)
      | Some entry \<Rightarrow>
          if now - windowStart entry > RATE_WINDOW_MS
          then (True, AList.update ip \<lparr>count = 1, windowStart = now\<rparr> loginAttempts)
          else if count entry \<ge> RATE_LIMIT then (False, loginAttempts)
          else (True, AList.update ip (entry\<lparr>count := count entry + 1\<rparr>) loginAttempts))"

text \<open>
  A stream of login requests, each a source and the clock it reads; \<open>attempts_of ip\<close>
  collects, in order, what the limiter answers to the requests of source \<open>ip\<close>, and
  returns the table after the whole stream.
\<close>

fun attempts_of :: "string \<Rightarrow> (string \<times> int) list \<Rightarrow> limiter \<Rightarrow> bool list \<times> limiter" where
  "attempts_of ip [] la = ([], la)"
| "attempts_of ip ((src, now) # reqs) la =
     (let (ok, la1) = checkRateLimit src now la;
          (oks, la2) = attempts_of ip reqs la1
      in (if src = ip then ok # oks else oks, la2))"

text \<open>
  The inputs of the login handler that come from outside: the parsed body
  (\<^verbatim>\<open>request.json()\<close> and \<^verbatim>\<open>loginSchema.safeParse\<close>) and the answer of the backend to
  \<^verbatim>\<open>GET /agents/me\<close> with the key, reduced to what the handler reads of it.
\<close>

datatype login_body = BodyThrows | BodyInvalid | BodyValid string

datatype me_response = FetchThrows | Me401 | MeNotOk | MeOk string

datatype 'tok route_response =
    ErrorResponse nat string
  | TokenResponse 'tok string

record 'tok login_result =
  response :: "'tok route_response"
  attempts_after :: limiter
  store_after :: store

text \<open>
  \<^verbatim>\<open>POST /api/auth/login\<close> (the handler with the rate limiter and the role assignment).
  \<open>sign\<close> is \<^verbatim>\<open>signAccessToken\<close> with its keys and clock; every exception inside the
  \<^verbatim>\<open>try\<close> block becomes the 500 response. \<open>TokenResponse t c\<close> is the 200 response with
  access token \<open>t\<close> and the \<^verbatim>\<open>refresh_token\<close> cookie \<open>c\<close>.
\<close>

definition login_POST ::
  "(token_input \<Rightarrow> auth_error + 'tok) \<Rightarrow> env \<Rightarrow> string option \<Rightarrow> int \<Rightarrow> login_body \<Rightarrow>
   (string \<Rightarrow> me_response) \<Rightarrow> string \<Rightarrow> int \<Rightarrow> limiter \<Rightarrow> store \<Rightarrow> 'tok login_result" where
  "login_POST sign e forwarded now body backend uuid now' la st =
     (let ip = client_ip forwarded;
          (ok, la1) = checkRateLimit ip now la
      in if \<not> ok
         then \<lparr>response = ErrorResponse 429 ''Too many requests'',
               attempts_after = la1, store_after = st\<rparr>
         else
           (case body of
              BodyThrows \<Rightarrow>
                \<lparr>response = ErrorResponse 500 ''Internal server error'',
                 attempts_after = la1, store_after = st\<rparr>
            | BodyInvalid \<Rightarrow>
                \<lparr>response = ErrorResponse 400 ''Invalid request'',
                 attempts_after = la1, store_after = st\<rparr>
            | BodyValid apiKey \<Rightarrow>
                (case backend apiKey of
                   FetchThrows \<Rightarrow>
                     \<lparr>response = ErrorResponse 500 ''Internal server error'',
                      attempts_after = la1, store_after = st\<rparr>
                 | Me401 \<Rightarrow>
                     \<lparr>response = ErrorResponse 401 ''Invalid credentials'',
                      attempts_after = la1, store_after = st\<rparr>
                 | MeNotOk \<Rightarrow>
                     \<lparr>response = ErrorResponse 500 ''Internal server error'',
                      attempts_after = la1, store_after = st\<rparr>
                 | MeOk uid \<Rightarrow>
                     (let adminIds = admin_ids e;
                          r = (if uid \<in> set adminIds then Admin else Agent);
                          perms = ROLE_PERMISSIONS r;
                          (refreshToken, st1) = createSession uid apiKey uuid now' st
                      in (case sign \<lparr>sub = uid, role = role_name r, permissions = perms\<rparr> of
                            Inl err \<Rightarrow>
                              \<lparr>response = ErrorResponse 500 ''Internal server error'',
                               attempts_after = la1, store_after = st1\<rparr>
                          | Inr accessToken \<Rightarrow>
                              \<lparr>response = TokenResponse accessToken refreshToken,
                               attempts_after = la1, store_after = st1\<rparr>)))))"

text \<open>
  \<^verbatim>\<open>POST /api/auth/refresh\<close>: \<open>cookie\<close> is the value of the \<^verbatim>\<open>refresh_token\<close> cookie;
  an empty value is falsy.
\<close>

definition refresh_POST ::
  "(token_input \<Rightarrow> auth_error + 'tok) \<Rightarrow> string option \<Rightarrow> int \<Rightarrow> string \<Rightarrow> int \<Rightarrow> store \<Rightarrow>
   'tok route_response \<times> store" where
  "refresh_POST sign cookie now uuid now' st =
     (case cookie of
        None \<Rightarrow> (ErrorResponse 401 ''Unauthorized'', st)
      | Some refreshToken \<Rightarrow>
          if refreshToken = [] then (ErrorResponse 401 ''Unauthorized'', st)
          else
            (case consumeSession refreshToken now uuid now' st of
               (None, st1) \<Rightarrow> (ErrorResponse 401 ''Unauthorized'', st1)
             | (Some result, st1) \<Rightarrow>
                 (case sign \<lparr>sub = c_userId result, role = ''agent'',
                             permissions = [''read'', ''write'']\<rparr> of
                    Inl err \<Rightarrow> (ErrorResponse 500 ''Internal server error'', st1)
                  | Inr accessToken \<Rightarrow>
                      (TokenResponse accessToken (newRefreshToken result), st1))))"

section \<open>Authorization gate (middleware)\<close>

text \<open>
  A request as the gate reads it: method, path and headers. \<^verbatim>\<open>Headers\<close> is a map from
  lower-case names to values: \<^verbatim>\<open>get\<close> looks a name up and \<^verbatim>\<open>set\<close> replaces its value.
  The gate answers with \<^verbatim>\<open>NextResponse.next\<close> (\<open>Forward\<close>: the request headers handed on
  when the gate overrides them, and the response headers it adds) or with a terminal JSON
  response (\<open>Reject\<close>: status and error). What it writes to the console is left out.

  \<^verbatim>\<open>Headers.set(name, value)\<close> takes a byte string, so it throws when the value has a
  character above U+00FF, which in UTF-8 is a byte from \<open>0xC4\<close> on; it removes the HTTP
  white space (tab, line feed, carriage return, space) from both ends of the value, and
  throws when what is left holds a NUL, a line feed or a carriage return. \<open>headers_set\<close>
  returns \<open>None\<close> for the throw.
\<close>

type_synonym headers = "string \<rightharpoonup> string"







definition http_whitespace :: "char \<Rightarrow> bool" where
  "http_whitespace c = (c \<in> set [CHR 0x09, CHR 0x0A, CHR 0x0D, CHR 0x20])"

definition normalize_value :: "string \<Rightarrow> string" where
  "normalize_value v = rev (dropWhile http_whitespace (rev (dropWhile http_whitespace v)))"

definition byte_string_char :: "char \<Rightarrow> bool" where
  "byte_string_char c = ((of_char c :: nat) < 0xC4)"

definition header_value :: "string \<Rightarrow> bool" where
  "header_value v = list_all (\<lambda>c. c \<noteq> CHR 0x00 \<and> c \<noteq> CHR 0x0A \<and> c \<noteq> CHR 0x0D) v"

definition headers_set :: "headers \<Rightarrow> string \<Rightarrow> string \<Rightarrow> headers option" where
  "headers_set hs name v =
     (if list_all byte_string_char v \<and> header_value (normalize_value v)
      then Some (hs(name \<mapsto> normalize_value v))
      else None)"



section \<open>Auxiliary notions for the properties\<close>

text \<open>
  An identifier is dead in a store when the table has no entry for it or the entry is
  marked used.
\<close>

definition dead :: "store \<Rightarrow> string \<Rightarrow> bool" where
  "dead st sid = (case map_of (sessions st) sid of None \<Rightarrow> True | Some session \<Rightarrow> used session)"

text \<open>
  The results of the \<open>consumeSession\<close> calls on one identifier in a sequence of store
  operations, in order.
\<close>

fun consume_results :: "string \<Rightarrow> store_op list \<Rightarrow> store \<Rightarrow> consumed option list" where
  "consume_results sid [] st = []"
| "consume_results sid (op # ops) st =
     (case op of
        ConsumeSession tok now uuid now' \<Rightarrow>
          if tok = sid then [fst (consumeSession tok now uuid now' st)] else []
      | _ \<Rightarrow> []) @ consume_results sid ops (exec_op op st)"

text \<open>The number of requests of one source in a stream of login requests.\<close>

definition from_source :: "string \<Rightarrow> (string \<times> int) list \<Rightarrow> nat" where
  "from_source ip reqs = length (filter (\<lambda>(src, t). src = ip) reqs)"

text \<open>Example data for the concrete instances.\<close>

definition empty_store :: store where
  "empty_store = \<lparr>sessions = [], userSessions = []\<rparr>"

definition alice_store :: store where
  "alice_store = snd (createSession ''alice'' ''key-1'' ''id1'' 100 empty_store)"

definition burst :: "(string \<times> int) list" where
  "burst = [(''10.0.0.1'', 1000), (''10.0.0.2'', 1500), (''10.0.0.1'', 2000), (''10.0.0.1'', 3000),
            (''10.0.0.1'', 4000), (''10.0.0.1'', 5000), (''10.0.0.2'', 5500), (''10.0.0.1'', 6000),
            (''10.0.0.1'', 7000), (''10.0.0.1'', 8000), (''10.0.0.1'', 9000), (''10.0.0.1'', 900000)]"

text \<open>
  A stand-in for the signing primitive, for the concrete instances: a token is the key
  together with what was signed, and a key opens the tokens made with the same key.
\<close>

definition toy_sign :: "nat \<Rightarrow> jwt_header \<Rightarrow> AccessTokenPayload \<Rightarrow> nat \<times> jwt_header \<times> AccessTokenPayload" where
  "toy_sign k h c = (k, h, c)"

definition toy_open ::
  "nat \<Rightarrow> nat \<times> jwt_header \<times> AccessTokenPayload \<Rightarrow> (jwt_header \<times> AccessTokenPayload) option" where
  "toy_open k tok = (case tok of (k', h, c) \<Rightarrow> if k' = k then Some (h, c) else None)"

definition alice_input :: token_input where
  "alice_input = \<lparr>sub = ''alice'', role = ''agent'', permissions = [''read'', ''write'']\<rparr>"







text \<open>
  The safe methods of HTTP, after the words of the claim on the default permission: the
  methods the protocol defines as safe are \<^verbatim>\<open>GET\<close>, \<^verbatim>\<open>HEAD\<close>, \<^verbatim>\<open>OPTIONS\<close> and
  \<^verbatim>\<open>TRACE\<close>.
\<close>

definition http_safe_method :: "string \<Rightarrow> bool" where
  "http_safe_method m = (m \<in> set [''GET'', ''HEAD'', ''OPTIONS'', ''TRACE''])"

definition admin_env :: env where
  "admin_env = [''ADMIN_USER_IDS'' \<mapsto> ''alice, bob'']"

section \<open>Properties of the session store\<close>

lemma prune_entry_lookup:
  "map_of (sessions (prune_entry now sid session st)) k = None \<or>
   map_of (sessions (prune_entry now sid session st)) k = map_of (sessions st) k"
  by (simp add: prune_entry_def delete_conv')

lemma prune_loop_lookup:
  "map_of (sessions (prune_loop now es st)) k = None \<or>
   map_of (sessions (prune_loop now es st)) k = map_of (sessions st) k"
proof (induction es arbitrary: st)
  case Nil
  show ?case by simp
next
  case (Cons e es)
  obtain sid session where e: "e = (sid, session)" by (cases e)
  from Cons.IH [of "prune_entry now sid session st"] prune_entry_lookup [of now sid session st k]
  show ?case unfolding e by auto
qed

lemma fold_delete_lookup:
  "map_of (fold AList.delete ids al) k = None \<or> map_of (fold AList.delete ids al) k = map_of al k"
proof (induction ids arbitrary: al)
  case Nil
  show ?case by simp
next
  case (Cons i ids)
  from Cons.IH [of "AList.delete i al"] show ?case by (auto simp: delete_conv')
qed

lemma invalidateUser_lookup:
  "map_of (sessions (invalidateUser uid st)) k = None \<or>
   map_of (sessions (invalidateUser uid st)) k = map_of (sessions st) k"
  using fold_delete_lookup [of _ "sessions st" k]
  by (auto simp: invalidateUser_def split: option.splits)

lemma createSession_lookup:
  "map_of (sessions (snd (createSession uid apiKey uuid now st))) k =
     (if k = uuid
      then Some \<lparr>moltbookApiKey = apiKey, userId = uid, expiresAt = now + SESSION_TTL_MS, used = False\<rparr>
      else map_of (sessions st) k)"
  by (simp add: createSession_def Let_def update_conv')

lemma consumeSession_None_iff:
  "fst (consumeSession tok now uuid now' st) = None \<longleftrightarrow>
     (case map_of (sessions st) tok of None \<Rightarrow> True
      | Some session \<Rightarrow> expiresAt session < now \<or> used session)"
  by (auto simp: consumeSession_def Let_def split: option.splits prod.splits)

lemma consumeSession_dead: "dead st tok \<Longrightarrow> fst (consumeSession tok now uuid now' st) = None"
  by (auto simp: consumeSession_None_iff dead_def split: option.splits)

lemma consumeSession_lookup:
  assumes "k \<noteq> uuid"
  shows "map_of (sessions (snd (consumeSession tok now uuid now' st))) k = None \<or>
         map_of (sessions (snd (consumeSession tok now uuid now' st))) k = map_of (sessions st) k \<or>
         (k = tok \<and> (\<exists>session. map_of (sessions st) k = Some session \<and> \<not> used session \<and>
            \<not> expiresAt session < now \<and>
            map_of (sessions (snd (consumeSession tok now uuid now' st))) k = Some (session\<lparr>used := True\<rparr>)))"
proof (cases "map_of (sessions st) tok")
  case None
  then show ?thesis by (simp add: consumeSession_def)
next
  case (Some session)
  show ?thesis
  proof (cases "expiresAt session < now")
    case True
    with Some show ?thesis by (simp add: consumeSession_def delete_conv')
  next
    case live: False
    show ?thesis
    proof (cases "used session")
      case True
      with Some live show ?thesis by (simp add: consumeSession_def)
    next
      case False
      let ?st1 = "st\<lparr> sessions := AList.update tok (session\<lparr>used := True\<rparr>) (sessions st) \<rparr>"
      have snd_eq: "snd (consumeSession tok now uuid now' st) =
            snd (createSession (userId session) (moltbookApiKey session) uuid now' ?st1)"
        using Some live False by (simp add: consumeSession_def Let_def split: prod.splits)
      show ?thesis
        unfolding snd_eq createSession_lookup using assms Some live False
        by (simp add: update_conv')
    qed
  qed
qed

lemma consumeSession_marks_used:
  assumes "consumeSession tok now uuid now' st = (Some r, st')" and "uuid \<noteq> tok"
  shows "\<exists>session. map_of (sessions st') tok = Some session \<and> used session"
proof -
  from assms(1) obtain session where s: "map_of (sessions st) tok = Some session"
    and live: "\<not> expiresAt session < now" and nu: "\<not> used session"
    by (auto simp: consumeSession_def split: option.splits if_splits)
  let ?st1 = "st\<lparr> sessions := AList.update tok (session\<lparr>used := True\<rparr>) (sessions st) \<rparr>"
  have "st' = snd (createSession (userId session) (moltbookApiKey session) uuid now' ?st1)"
    using assms(1) s live nu by (simp add: consumeSession_def Let_def split: prod.splits)
  then show ?thesis using assms(2) by (simp add: createSession_lookup update_conv')
qed

lemma exec_op_dead:
  assumes "dead st sid" and "uuid_of op \<noteq> Some sid"
  shows "dead (exec_op op st) sid"
proof (cases op)
  case (CreateSession uid apiKey uuid now)
  with assms show ?thesis by (simp add: dead_def createSession_lookup)
next
  case (ConsumeSession tok now uuid now')
  with assms(2) have "sid \<noteq> uuid" by auto
  from consumeSession_lookup [OF this, of tok now now' st] assms(1) ConsumeSession
  show ?thesis by (auto simp: dead_def split: option.splits)
next
  case (GetMoltbookKey uid now)
  with assms show ?thesis by simp
next
  case (InvalidateUser uid)
  with assms(1) invalidateUser_lookup [of uid st sid] show ?thesis
    by (auto simp: dead_def split: option.splits)
next
  case (PruneExpired now)
  with assms(1) prune_loop_lookup [of now "sessions st" st sid] show ?thesis
    by (auto simp: dead_def pruneExpired_def split: option.splits)
qed

lemma exec_ops_dead:
  "dead st sid \<Longrightarrow> \<forall>op\<in>set ops. uuid_of op \<noteq> Some sid \<Longrightarrow> dead (exec_ops ops st) sid"
  by (induction ops arbitrary: st) (auto intro: exec_op_dead)

lemma consume_results_dead:
  "dead st sid \<Longrightarrow> \<forall>op\<in>set ops. uuid_of op \<noteq> Some sid \<Longrightarrow>
   set (consume_results sid ops st) \<subseteq> {None}"
proof (induction ops arbitrary: st)
  case Nil
  show ?case by simp
next
  case (Cons op ops)
  from Cons.prems have d: "dead (exec_op op st) sid" by (simp add: exec_op_dead)
  from Cons.IH [OF d] Cons.prems(2)
  have rest: "set (consume_results sid ops (exec_op op st)) \<subseteq> {None}" by simp
  show ?case
    using rest consumeSession_dead [OF Cons.prems(1)]
    by (cases op) auto
qed

text \<open>
  C1. A successful \<open>consumeSession\<close> on an identifier marks its entry used; in any
  sequence of later store operations, none of which draws that identifier again from the
  generator, every \<open>consumeSession\<close> on it returns none, and so does a further one after
  the sequence. So at most one call on the identifier succeeds.
\<close>

theorem consume_once:
  assumes "consumeSession sid now uuid now' st = (Some r, st')"
    and "uuid \<noteq> sid"
    and "\<forall>op\<in>set ops. uuid_of op \<noteq> Some sid"
  shows "(\<exists>session. map_of (sessions st') sid = Some session \<and> used session) \<and>
         set (consume_results sid ops st') \<subseteq> {None} \<and>
         fst (consumeSession sid t u t' (exec_ops ops st')) = None"
proof -
  from consumeSession_marks_used [OF assms(1,2)]
  have m: "\<exists>session. map_of (sessions st') sid = Some session \<and> used session" .
  then have d: "dead st' sid" by (auto simp: dead_def)
  from exec_ops_dead [OF d assms(3)] have "dead (exec_ops ops st') sid" .
  with m consume_results_dead [OF d assms(3)] show ?thesis by (simp add: consumeSession_dead)
qed

lemma alice_consume:
  "consumeSession ''id1'' 200 ''id2'' 201 alice_store =
     (Some \<lparr>c_moltbookApiKey = ''key-1'', c_userId = ''alice'', newRefreshToken = ''id2''\<rparr>,
      \<lparr>sessions =
         [(''id1'', \<lparr>moltbookApiKey = ''key-1'', userId = ''alice'', expiresAt = 604800100, used = True\<rparr>),
          (''id2'', \<lparr>moltbookApiKey = ''key-1'', userId = ''alice'', expiresAt = 604800201, used = False\<rparr>)],
       userSessions = [(''alice'', [''id1'', ''id2''])]\<rparr>)"
  by (simp add: consumeSession_def createSession_def alice_store_def empty_store_def
      SESSION_TTL_MS_def set_add_def Let_def)

theorem consume_once_witness:
  "fst (consumeSession ''id1'' 200 ''id2'' 201 alice_store) \<noteq> None \<and>
   consume_results ''id1''
     [PruneExpired 300, CreateSession ''bob'' ''key-2'' ''id3'' 301,
      ConsumeSession ''id1'' 302 ''id4'' 303, ConsumeSession ''id2'' 304 ''id5'' 305,
      InvalidateUser ''bob'']
     (snd (consumeSession ''id1'' 200 ''id2'' 201 alice_store)) = [None] \<and>
   fst (consumeSession ''id1'' 400 ''id9'' 401
     (exec_ops [PruneExpired 300, CreateSession ''bob'' ''key-2'' ''id3'' 301,
                ConsumeSession ''id1'' 302 ''id4'' 303, ConsumeSession ''id2'' 304 ''id5'' 305,
                InvalidateUser ''bob'']
        (snd (consumeSession ''id1'' 200 ''id2'' 201 alice_store)))) = None"
proof -
  have ne: "''id2'' \<noteq> ''id1''" by simp
  have ops: "\<forall>op\<in>set [PruneExpired 300, CreateSession ''bob'' ''key-2'' ''id3'' 301,
                ConsumeSession ''id1'' 302 ''id4'' 303, ConsumeSession ''id2'' 304 ''id5'' 305,
                InvalidateUser ''bob'']. uuid_of op \<noteq> Some ''id1''" by simp
  from consume_once [OF alice_consume ne ops, of 400 "''id9''" 401]
  show ?thesis unfolding alice_consume by auto
qed

text \<open>
  C6. \<open>consumeSession\<close> on an identifier that the table does not hold, or whose entry has
  \<open>expiresAt\<close> before the clock, returns none, whatever the entry's \<open>used\<close> flag is; so
  an expired entry that was never used cannot be consumed.
\<close>

theorem consume_absent_or_expired:
  assumes "map_of (sessions st) tok = None \<or>
           (\<exists>session. map_of (sessions st) tok = Some session \<and> expiresAt session < now)"
  shows "fst (consumeSession tok now uuid now' st) = None"
  using assms by (auto simp: consumeSession_None_iff)

lemma alice_lookup:
  "map_of (sessions alice_store) ''id1'' =
     Some \<lparr>moltbookApiKey = ''key-1'', userId = ''alice'', expiresAt = 604800100, used = False\<rparr>"
  "map_of (sessions alice_store) ''id7'' = None"
  by (simp_all add: alice_store_def empty_store_def createSession_lookup SESSION_TTL_MS_def)

theorem consume_absent_or_expired_witness:
  "map_of (sessions alice_store) ''id7'' = None \<and>
   fst (consumeSession ''id7'' 200 ''id2'' 201 alice_store) = None \<and>
   map_of (sessions alice_store) ''id1'' =
     Some \<lparr>moltbookApiKey = ''key-1'', userId = ''alice'', expiresAt = 604800100, used = False\<rparr> \<and>
   fst (consumeSession ''id1'' 604800101 ''id2'' 604800101 alice_store) = None"
proof -
  have a: "map_of (sessions alice_store) ''id7'' = None \<or>
           (\<exists>session. map_of (sessions alice_store) ''id7'' = Some session \<and> expiresAt session < 200)"
    by (simp add: alice_lookup)
  have b: "map_of (sessions alice_store) ''id1'' = None \<or>
           (\<exists>session. map_of (sessions alice_store) ''id1'' = Some session \<and>
              expiresAt session < 604800101)"
    by (simp add: alice_lookup)
  from consume_absent_or_expired [OF a, of "''id2''" 201]
       consume_absent_or_expired [OF b, of "''id2''" 604800101]
  show ?thesis by (simp add: alice_lookup)
qed

text \<open>
  C8 as stated fails: a \<open>consumeSession\<close> that returns none on an expired entry deletes
  the entry from the table, so it does not leave the store unchanged, and the entry is
  removed by something other than the sweep and \<open>invalidateUser\<close>.
\<close>

theorem consume_none_changes_store_counterexample:
  "fst (consumeSession ''id1'' 604800101 ''id2'' 604800101 alice_store) = None \<and>
   snd (consumeSession ''id1'' 604800101 ''id2'' 604800101 alice_store) \<noteq> alice_store \<and>
   map_of (sessions alice_store) ''id1'' \<noteq> None \<and>
   map_of (sessions (snd (consumeSession ''id1'' 604800101 ''id2'' 604800101 alice_store))) ''id1'' = None"
  by (simp add: consumeSession_def createSession_def alice_store_def empty_store_def
      SESSION_TTL_MS_def set_add_def Let_def)

lemma consumeSession_None_store:
  assumes "fst (consumeSession tok now uuid now' st) = None"
  shows "snd (consumeSession tok now uuid now' st) =
           (if \<exists>session. map_of (sessions st) tok = Some session \<and> expiresAt session < now
            then st\<lparr> sessions := AList.delete tok (sessions st) \<rparr> else st)"
  using assms by (auto simp: consumeSession_def Let_def split: option.splits prod.splits if_splits)

lemma consumeSession_live:
  assumes "map_of (sessions st) tok = Some session" and "\<not> expiresAt session < now"
    and "\<not> used session" and "uuid \<noteq> tok"
  shows "map_of (sessions (snd (consumeSession tok now uuid now' st))) tok =
           Some (session\<lparr>used := True\<rparr>)"
proof -
  let ?st1 = "st\<lparr> sessions := AList.update tok (session\<lparr>used := True\<rparr>) (sessions st) \<rparr>"
  have "snd (consumeSession tok now uuid now' st) =
        snd (createSession (userId session) (moltbookApiKey session) uuid now' ?st1)"
    using assms(1-3) by (simp add: consumeSession_def Let_def split: prod.splits)
  then show ?thesis using assms(4) by (simp add: createSession_lookup update_conv')
qed

lemma exec_op_entry:
  assumes "uuid_of op \<noteq> Some k"
  shows "map_of (sessions (exec_op op st)) k = map_of (sessions st) k \<or>
     (\<exists>now uuid now' session. op = ConsumeSession k now uuid now' \<and>
        map_of (sessions st) k = Some session \<and> \<not> used session \<and> \<not> expiresAt session < now \<and>
        map_of (sessions (exec_op op st)) k = Some (session\<lparr>used := True\<rparr>)) \<or>
     (map_of (sessions (exec_op op st)) k = None \<and>
        ((\<exists>now. op = PruneExpired now) \<or> (\<exists>uid. op = InvalidateUser uid) \<or>
         (\<exists>now uuid now' session. op = ConsumeSession k now uuid now' \<and>
            map_of (sessions st) k = Some session \<and> expiresAt session < now)))"
proof (cases op)
  case (CreateSession uid apiKey uuid now)
  with assms show ?thesis by (simp add: createSession_lookup)
next
  case (ConsumeSession tok now uuid now')
  with assms have ne: "k \<noteq> uuid" by auto
  show ?thesis
  proof (cases "tok = k")
    case True
    show ?thesis
    proof (cases "map_of (sessions st) k")
      case None
      with True ConsumeSession show ?thesis by (simp add: consumeSession_def)
    next
      case (Some session)
      show ?thesis
      proof (cases "expiresAt session < now")
        case True
        with Some \<open>tok = k\<close> ConsumeSession show ?thesis
          by (simp add: consumeSession_def delete_conv')
      next
        case False
        note live = this
        show ?thesis
        proof (cases "used session")
          case True
          with Some live \<open>tok = k\<close> ConsumeSession show ?thesis
            by (simp add: consumeSession_def)
        next
          case False
          from consumeSession_live [OF Some live False ne [symmetric], of now'] \<open>tok = k\<close> ConsumeSession
               Some live False
          show ?thesis by simp
        qed
      qed
    qed
  next
    case False
    have "map_of (sessions (snd (consumeSession tok now uuid now' st))) k = map_of (sessions st) k"
    proof (cases "map_of (sessions st) tok")
      case None
      then show ?thesis by (simp add: consumeSession_def)
    next
      case (Some session)
      let ?st1 = "st\<lparr> sessions := AList.update tok (session\<lparr>used := True\<rparr>) (sessions st) \<rparr>"
      show ?thesis
      proof (cases "expiresAt session < now \<or> used session")
        case True
        with Some False show ?thesis by (auto simp: consumeSession_def delete_conv')
      next
        case live: False
        have "snd (consumeSession tok now uuid now' st) =
              snd (createSession (userId session) (moltbookApiKey session) uuid now' ?st1)"
          using Some live by (simp add: consumeSession_def Let_def split: prod.splits)
        then show ?thesis using ne False by (simp add: createSession_lookup update_conv')
      qed
    qed
    with ConsumeSession show ?thesis by simp
  qed
next
  case (GetMoltbookKey uid now)
  then show ?thesis by simp
next
  case (InvalidateUser uid)
  with invalidateUser_lookup [of uid st k] show ?thesis by auto
next
  case (PruneExpired now)
  with prune_loop_lookup [of now "sessions st" st k] show ?thesis
    by (auto simp: pruneExpired_def)
qed

text \<open>
  C8, amended. Under an operation that does not draw the identifier \<open>k\<close> from the
  generator, the entry of \<open>k\<close> is unchanged, or has its \<open>used\<close> flag flipped from false to
  true by a \<open>consumeSession\<close> on \<open>k\<close> before its expiry, or is removed, and then the
  operation is the sweep, \<open>invalidateUser\<close>, or a \<open>consumeSession\<close> on \<open>k\<close> after its
  expiry. A \<open>consumeSession\<close> that returns none leaves the store unchanged unless the
  entry has expired; then it deletes that entry from the session table and changes
  nothing else.
\<close>

theorem session_entry_lifecycle:
  "(uuid_of op \<noteq> Some k \<longrightarrow>
     (map_of (sessions (exec_op op st)) k = map_of (sessions st) k \<or>
      (\<exists>now uuid now' session. op = ConsumeSession k now uuid now' \<and>
         map_of (sessions st) k = Some session \<and> \<not> used session \<and> \<not> expiresAt session < now \<and>
         map_of (sessions (exec_op op st)) k = Some (session\<lparr>used := True\<rparr>)) \<or>
      (map_of (sessions (exec_op op st)) k = None \<and>
         ((\<exists>now. op = PruneExpired now) \<or> (\<exists>uid. op = InvalidateUser uid) \<or>
          (\<exists>now uuid now' session. op = ConsumeSession k now uuid now' \<and>
             map_of (sessions st) k = Some session \<and> expiresAt session < now))))) \<and>
   (fst (consumeSession tok t u t' st) = None \<longrightarrow>
      snd (consumeSession tok t u t' st) =
        (if \<exists>session. map_of (sessions st) tok = Some session \<and> expiresAt session < t
         then st\<lparr> sessions := AList.delete tok (sessions st) \<rparr> else st))"
  using exec_op_entry [of op k st] consumeSession_None_store [of tok t u t' st] by blast

theorem session_entry_lifecycle_witness:
  "uuid_of (ConsumeSession ''id1'' 200 ''id2'' 201) \<noteq> Some ''id1'' \<and>
   map_of (sessions (exec_op (ConsumeSession ''id1'' 200 ''id2'' 201) alice_store)) ''id1'' =
     Some \<lparr>moltbookApiKey = ''key-1'', userId = ''alice'', expiresAt = 604800100, used = True\<rparr> \<and>
   fst (consumeSession ''id1'' 604800101 ''id2'' 604800101 alice_store) = None \<and>
   snd (consumeSession ''id1'' 604800101 ''id2'' 604800101 alice_store) =
     alice_store\<lparr> sessions := AList.delete ''id1'' (sessions alice_store) \<rparr>"
proof -
  have none: "fst (consumeSession ''id1'' 604800101 ''id2'' 604800101 alice_store) = None"
    by (simp add: consumeSession_None_iff alice_lookup)
  from session_entry_lifecycle
         [of "ConsumeSession ''id1'' 200 ''id2'' 201" "''id1''" alice_store
             "''id1''" 604800101 "''id2''" 604800101]
  show ?thesis by (simp add: none alice_lookup alice_consume)
qed

section \<open>Properties of the login rate limiter\<close>

lemma checkRateLimit_other:
  "src \<noteq> ip \<Longrightarrow> map_of (snd (checkRateLimit src now la)) ip = map_of la ip"
  by (simp add: checkRateLimit_def update_conv' split: option.splits)

lemma checkRateLimit_fresh:
  assumes "map_of la ip = None \<or> (\<exists>e. map_of la ip = Some e \<and> now - windowStart e > RATE_WINDOW_MS)"
  shows "fst (checkRateLimit ip now la) = True"
    and "map_of (snd (checkRateLimit ip now la)) ip = Some \<lparr>count = 1, windowStart = now\<rparr>"
  using assms by (auto simp: checkRateLimit_def update_conv' split: option.splits)

lemma checkRateLimit_in_window:
  assumes "map_of la ip = Some e" and "\<not> now - windowStart e > RATE_WINDOW_MS"
  shows "fst (checkRateLimit ip now la) = (count e < RATE_LIMIT)"
    and "map_of (snd (checkRateLimit ip now la)) ip =
           Some (if count e < RATE_LIMIT then e\<lparr>count := count e + 1\<rparr> else e)"
  using assms by (auto simp: checkRateLimit_def update_conv' split: option.splits)

lemma attempts_of_window:
  assumes "map_of la ip = Some e"
    and "count e \<le> RATE_LIMIT"
    and "\<forall>(src, t)\<in>set reqs. src = ip \<longrightarrow> t - windowStart e \<le> RATE_WINDOW_MS"
  shows "fst (attempts_of ip reqs la) =
           replicate (min (from_source ip reqs) (RATE_LIMIT - count e)) True @
           replicate (from_source ip reqs - (RATE_LIMIT - count e)) False \<and>
         map_of (snd (attempts_of ip reqs la)) ip =
           Some (e\<lparr>count := min RATE_LIMIT (count e + from_source ip reqs)\<rparr>)"
  using assms
proof (induction reqs arbitrary: la e)
  case Nil
  then show ?case by (simp add: from_source_def)
next
  case (Cons rq reqs)
  obtain src t where rq: "rq = (src, t)" by (cases rq)
  obtain ok la1 where c: "checkRateLimit src t la = (ok, la1)" by (cases "checkRateLimit src t la")
  obtain oks la2 where a: "attempts_of ip reqs la1 = (oks, la2)" by (cases "attempts_of ip reqs la1")
  have rest: "\<forall>(src, t)\<in>set reqs. src = ip \<longrightarrow> t - windowStart e \<le> RATE_WINDOW_MS"
    using Cons.prems(3) by simp
  show ?case
  proof (cases "src = ip")
    case False
    then have "map_of la1 ip = Some e"
      using checkRateLimit_other [of src ip t la] c Cons.prems(1) by simp
    from Cons.IH [OF this Cons.prems(2) rest] False rq c a
    show ?thesis by (simp add: from_source_def)
  next
    case True
    have inw: "\<not> t - windowStart e > RATE_WINDOW_MS"
      using Cons.prems(3) True rq by auto
    note step = checkRateLimit_in_window [OF Cons.prems(1) inw]
    show ?thesis
    proof (cases "count e < RATE_LIMIT")
      case lt: True
      let ?e = "e\<lparr>count := count e + 1\<rparr>"
      have ok: "ok" and m: "map_of la1 ip = Some ?e"
        using step c True lt by simp_all
      have le: "count ?e \<le> RATE_LIMIT" using lt by simp
      have rest': "\<forall>(src, t)\<in>set reqs. src = ip \<longrightarrow> t - windowStart ?e \<le> RATE_WINDOW_MS"
        using rest by simp
      from Cons.IH [OF m le rest'] a
      have oks: "oks = replicate (min (from_source ip reqs) (RATE_LIMIT - (count e + 1))) True @
                   replicate (from_source ip reqs - (RATE_LIMIT - (count e + 1))) False"
        and fin: "map_of la2 ip = Some (e\<lparr>count := min RATE_LIMIT (count e + 1 + from_source ip reqs)\<rparr>)"
        by simp_all
      have n: "from_source ip (rq # reqs) = Suc (from_source ip reqs)"
        using True rq by (simp add: from_source_def)
      have r1: "min (Suc (from_source ip reqs)) (RATE_LIMIT - count e) =
                Suc (min (from_source ip reqs) (RATE_LIMIT - (count e + 1)))"
        using lt by simp
      have r2: "Suc (from_source ip reqs) - (RATE_LIMIT - count e) =
                from_source ip reqs - (RATE_LIMIT - (count e + 1))"
        using lt by simp
      show ?thesis
        using True rq c a ok oks fin unfolding n r1 r2 by simp
    next
      case ge: False
      have ok: "\<not> ok" and m: "map_of la1 ip = Some e"
        using step c True ge by simp_all
      from Cons.IH [OF m Cons.prems(2) rest] a
      have oks: "oks = replicate (min (from_source ip reqs) (RATE_LIMIT - count e)) True @
                   replicate (from_source ip reqs - (RATE_LIMIT - count e)) False"
        and fin: "map_of la2 ip = Some (e\<lparr>count := min RATE_LIMIT (count e + from_source ip reqs)\<rparr>)"
        by simp_all
      have z: "RATE_LIMIT - count e = 0" using ge by simp
      have n: "from_source ip (rq # reqs) = Suc (from_source ip reqs)"
        using True rq by (simp add: from_source_def)
      have cnt: "min RATE_LIMIT (count e + Suc (from_source ip reqs)) = min RATE_LIMIT (count e + from_source ip reqs)"
        using ge by simp
      show ?thesis
        using True rq c a ok oks fin cnt unfolding n z by simp
    qed
  qed
qed

lemma login_POST_limited:
  assumes "\<not> fst (checkRateLimit (client_ip forwarded) now la)"
  shows "response (login_POST sign e forwarded now body backend uuid now' la st) =
           ErrorResponse 429 ''Too many requests''"
proof -
  obtain ok la1 where c: "checkRateLimit (client_ip forwarded) now la = (ok, la1)"
    by (cases "checkRateLimit (client_ip forwarded) now la")
  with assms have "\<not> ok" by simp
  with c show ?thesis by (simp add: login_POST_def)
qed

text \<open>
  C7. Let a source \<open>ip\<close> have no entry in the limiter's table, or one whose window has
  run out at \<open>t1\<close>, and let it attempt a login at \<open>t1\<close> and ten more times after that,
  each within \<open>RATE_WINDOW_MS\<close> of \<open>t1\<close>, in a stream that may hold requests of other
  sources in between. Then its first ten attempts are admitted and the eleventh is
  refused; an attempt more than \<open>RATE_WINDOW_MS\<close> after \<open>t1\<close> is admitted again; and the
  login handler answers a refused attempt with status 429.
\<close>

theorem login_rate_limit:
  assumes "map_of la ip = None \<or>
           (\<exists>e. map_of la ip = Some e \<and> t1 - windowStart e > RATE_WINDOW_MS)"
    and "\<forall>(src, t)\<in>set reqs. src = ip \<longrightarrow> t - t1 \<le> RATE_WINDOW_MS"
    and "from_source ip reqs = 10"
    and "t2 - t1 > RATE_WINDOW_MS"
  shows "fst (attempts_of ip ((ip, t1) # reqs) la) = replicate 10 True @ [False] \<and>
         fst (checkRateLimit ip t2 (snd (attempts_of ip ((ip, t1) # reqs) la))) = True \<and>
         (\<forall>sign e forwarded now body backend uuid now' la0 st.
            client_ip forwarded = ip \<and> fst (checkRateLimit ip now la0) = False \<longrightarrow>
            response (login_POST sign e forwarded now body backend uuid now' la0 st) =
              (ErrorResponse 429 ''Too many requests'' :: unit route_response))"
proof -
  obtain la1 where c: "checkRateLimit ip t1 la = (True, la1)"
    using checkRateLimit_fresh(1) [OF assms(1)] by (cases "checkRateLimit ip t1 la") simp
  let ?e = "\<lparr>count = 1, windowStart = t1\<rparr>"
  have m: "map_of la1 ip = Some ?e"
    using checkRateLimit_fresh(2) [OF assms(1)] c by simp
  have le: "count ?e \<le> RATE_LIMIT" by (simp add: RATE_LIMIT_def)
  have w: "\<forall>(src, t)\<in>set reqs. src = ip \<longrightarrow> t - windowStart ?e \<le> RATE_WINDOW_MS"
    using assms(2) by simp
  obtain oks la2 where a: "attempts_of ip reqs la1 = (oks, la2)"
    by (cases "attempts_of ip reqs la1")
  from attempts_of_window [OF m le w] a assms(3)
  have oks: "oks = replicate 9 True @ [False]"
    and fin: "map_of la2 ip = Some (?e\<lparr>count := 10\<rparr>)"
    by (simp_all add: RATE_LIMIT_def)
  have all: "attempts_of ip ((ip, t1) # reqs) la = (True # oks, la2)"
    using c a by simp
  have first: "fst (attempts_of ip ((ip, t1) # reqs) la) = replicate 10 True @ [False]"
    unfolding all oks by (simp add: numeral_eq_Suc)
  have again: "fst (checkRateLimit ip t2 (snd (attempts_of ip ((ip, t1) # reqs) la))) = True"
    unfolding all using fin assms(4) by (simp add: checkRateLimit_def)
  show ?thesis using first again login_POST_limited by auto
qed

theorem login_rate_limit_witness:
  "from_source ''10.0.0.1'' burst = 10 \<and>
   fst (attempts_of ''10.0.0.1'' ((''10.0.0.1'', 0) # burst) []) = replicate 10 True @ [False] \<and>
   fst (checkRateLimit ''10.0.0.1'' 900001 (snd (attempts_of ''10.0.0.1'' ((''10.0.0.1'', 0) # burst) [])))
     = True"
proof -
  have a: "map_of ([] :: limiter) ''10.0.0.1'' = None \<or>
           (\<exists>e. map_of ([] :: limiter) ''10.0.0.1'' = Some e \<and> 0 - windowStart e > RATE_WINDOW_MS)"
    by simp
  have b: "\<forall>(src, t)\<in>set burst. src = ''10.0.0.1'' \<longrightarrow> t - 0 \<le> RATE_WINDOW_MS"
    by (simp add: burst_def RATE_WINDOW_MS_def)
  have c: "from_source ''10.0.0.1'' burst = 10"
    by (simp add: burst_def from_source_def)
  have d: "900001 - 0 > RATE_WINDOW_MS" by (simp add: RATE_WINDOW_MS_def)
  from login_rate_limit [OF a b c d] c show ?thesis by blast
qed

section \<open>Properties of the permission resolver\<close>

lemma resolve_first:
  "rules = pre @ r # post \<Longrightarrow> \<forall>q\<in>set pre. \<not> rule_matches q m p \<Longrightarrow> rule_matches r m p
   \<Longrightarrow> resolve rules m p = requires r"
  by (induction pre arbitrary: rules) auto

lemma resolve_default:
  "\<forall>q\<in>set rules. \<not> rule_matches q m p \<Longrightarrow>
   resolve rules m p = (if m = ''GET'' \<or> m = ''HEAD'' then ''read'' else ''write'')"
  by (induction rules) auto

lemma resolve_range:
  "resolve rules m p \<in> insert ''read'' (insert ''write'' (requires ` set rules))"
  by (induction rules) auto

lemmas resolver_eval = getRequiredPermission_def ROUTE_PERMISSIONS_def rule_matches_def rx_test_def

text \<open>
  C4. The resolver gives \<open>delete\<close> for \<^verbatim>\<open>DELETE /api/posts/123\<close>, \<open>write\<close> for
  \<^verbatim>\<open>PATCH /api/agents\<close> and \<open>read\<close> for \<^verbatim>\<open>GET /api/posts\<close>, the last by the default,
  since no rule of the list matches it; and for every method and path, the first rule
  of the list that matches, if there is one, gives the result.
\<close>

theorem resolver_examples:
  "getRequiredPermission ''DELETE'' ''/api/posts/123'' = ''delete'' \<and>
   getRequiredPermission ''PATCH'' ''/api/agents'' = ''write'' \<and>
   getRequiredPermission ''GET'' ''/api/posts'' = ''read'' \<and>
   (\<forall>rule\<in>set ROUTE_PERMISSIONS. \<not> rule_matches rule ''GET'' ''/api/posts'') \<and>
   (\<forall>m pathname pre rule post.
      ROUTE_PERMISSIONS = pre @ rule # post \<and>
      (\<forall>q\<in>set pre. \<not> rule_matches q m pathname) \<and> rule_matches rule m pathname \<longrightarrow>
      getRequiredPermission m pathname = requires rule)"
proof -
  have a: "getRequiredPermission ''DELETE'' ''/api/posts/123'' = ''delete''"
    by (simp add: resolver_eval)
  have b: "getRequiredPermission ''PATCH'' ''/api/agents'' = ''write''"
    by (simp add: resolver_eval)
  have c: "getRequiredPermission ''GET'' ''/api/posts'' = ''read''"
    by (simp add: resolver_eval)
  have d: "\<forall>rule\<in>set ROUTE_PERMISSIONS. \<not> rule_matches rule ''GET'' ''/api/posts''"
    by (simp add: resolver_eval)
  have e: "\<forall>m pathname pre rule post.
      ROUTE_PERMISSIONS = pre @ rule # post \<and>
      (\<forall>q\<in>set pre. \<not> rule_matches q m pathname) \<and> rule_matches rule m pathname \<longrightarrow>
      getRequiredPermission m pathname = requires rule"
    unfolding getRequiredPermission_def using resolve_first by blast
  from a b c d e show ?thesis by blast
qed

theorem resolver_examples_witness:
  "ROUTE_PERMISSIONS = [ROUTE_PERMISSIONS ! 0] @ ROUTE_PERMISSIONS ! 1 # [ROUTE_PERMISSIONS ! 2] \<and>
   \<not> rule_matches (ROUTE_PERMISSIONS ! 0) ''PATCH'' ''/api/agents/me'' \<and>
   rule_matches (ROUTE_PERMISSIONS ! 1) ''PATCH'' ''/api/agents/me'' \<and>
   getRequiredPermission ''PATCH'' ''/api/agents/me'' = requires (ROUTE_PERMISSIONS ! 1) \<and>
   requires (ROUTE_PERMISSIONS ! 1) = ''write''"
proof -
  have s: "ROUTE_PERMISSIONS = [ROUTE_PERMISSIONS ! 0] @ ROUTE_PERMISSIONS ! 1 # [ROUTE_PERMISSIONS ! 2]"
    by (simp add: ROUTE_PERMISSIONS_def)
  have n: "\<forall>q\<in>set [ROUTE_PERMISSIONS ! 0]. \<not> rule_matches q ''PATCH'' ''/api/agents/me''"
    by (simp add: ROUTE_PERMISSIONS_def rule_matches_def)
  have y: "rule_matches (ROUTE_PERMISSIONS ! 1) ''PATCH'' ''/api/agents/me''"
    by (simp add: ROUTE_PERMISSIONS_def rule_matches_def rx_test_def)
  have r: "requires (ROUTE_PERMISSIONS ! 1) = ''write''"
    by (simp add: ROUTE_PERMISSIONS_def)
  from resolver_examples s n y have
    "getRequiredPermission ''PATCH'' ''/api/agents/me'' = requires (ROUTE_PERMISSIONS ! 1)"
    by blast
  with s n y r show ?thesis by simp
qed

text \<open>
  C5 as stated fails: \<^verbatim>\<open>OPTIONS\<close> is a safe method, no rule of the list matches
  \<^verbatim>\<open>OPTIONS /api/posts\<close>, and the resolver returns \<open>write\<close> for it, since the default
  tests for \<^verbatim>\<open>GET\<close> and \<^verbatim>\<open>HEAD\<close> only.
\<close>

theorem resolver_safe_method_counterexample:
  "http_safe_method ''OPTIONS'' \<and>
   length ROUTE_PERMISSIONS = 3 \<and>
   \<not> rule_matches (ROUTE_PERMISSIONS ! 0) ''OPTIONS'' ''/api/posts'' \<and>
   \<not> rule_matches (ROUTE_PERMISSIONS ! 1) ''OPTIONS'' ''/api/posts'' \<and>
   \<not> rule_matches (ROUTE_PERMISSIONS ! 2) ''OPTIONS'' ''/api/posts'' \<and>
   getRequiredPermission ''OPTIONS'' ''/api/posts'' = ''write'' \<and>
   getRequiredPermission ''OPTIONS'' ''/api/posts'' \<noteq> ''read''"
  by (simp add: http_safe_method_def resolver_eval)

text \<open>
  C5, amended. When no rule of the list matches the method and the path, the resolver
  returns \<open>read\<close> when the method is \<^verbatim>\<open>GET\<close> or \<^verbatim>\<open>HEAD\<close> and \<open>write\<close> for every other
  method, the safe methods \<^verbatim>\<open>OPTIONS\<close> and \<^verbatim>\<open>TRACE\<close> among them.
\<close>

theorem resolver_default:
  assumes "\<forall>rule\<in>set ROUTE_PERMISSIONS. \<not> rule_matches rule m pathname"
  shows "getRequiredPermission m pathname =
           (if m = ''GET'' \<or> m = ''HEAD'' then ''read'' else ''write'')"
  unfolding getRequiredPermission_def using assms by (rule resolve_default)

theorem resolver_default_witness:
  "getRequiredPermission ''HEAD'' ''/api/feed'' = ''read'' \<and>
   getRequiredPermission ''PUT'' ''/api/posts/7'' = ''write'' \<and>
   getRequiredPermission ''POST'' ''/api/posts//upvote'' = ''write'' \<and>
   getRequiredPermission ''TRACE'' ''/api/feed'' = ''write''"
proof -
  have d: "\<forall>rule\<in>set ROUTE_PERMISSIONS. \<not> rule_matches rule ''TRACE'' ''/api/feed''"
    by (simp add: ROUTE_PERMISSIONS_def rule_matches_def)
  have a: "\<forall>rule\<in>set ROUTE_PERMISSIONS. \<not> rule_matches rule ''HEAD'' ''/api/feed''"
    by (simp add: ROUTE_PERMISSIONS_def rule_matches_def)
  have b: "\<forall>rule\<in>set ROUTE_PERMISSIONS. \<not> rule_matches rule ''PUT'' ''/api/posts/7''"
    by (simp add: ROUTE_PERMISSIONS_def rule_matches_def)
  have c: "\<forall>rule\<in>set ROUTE_PERMISSIONS. \<not> rule_matches rule ''POST'' ''/api/posts//upvote''"
    by (simp add: ROUTE_PERMISSIONS_def rule_matches_def rx_test_def)
  from resolver_default [OF a] resolver_default [OF b] resolver_default [OF c]
       resolver_default [OF d]
  show ?thesis by simp
qed

text \<open>
  C9. For every method and path the resolver returns one of \<open>read\<close>, \<open>write\<close> and
  \<open>delete\<close>, never \<open>admin\<close>: what it demands is a permission of the agent role, or
  \<open>delete\<close>. The resolver is a total function: the loop runs once over a fixed list and
  the matcher recurses on the pattern and the path.
\<close>

theorem resolver_range:
  "getRequiredPermission m pathname \<in> {''read'', ''write'', ''delete''} \<and>
   getRequiredPermission m pathname \<noteq> ''admin'' \<and>
   getRequiredPermission m pathname \<in> set (ROLE_PERMISSIONS Agent) \<union> {''delete''} \<and>
   getRequiredPermission m pathname \<in> set (ROLE_PERMISSIONS Admin)"
proof -
  have "getRequiredPermission m pathname \<in> {''read'', ''write'', ''delete''}"
    using resolve_range [of ROUTE_PERMISSIONS m pathname]
    by (auto simp: getRequiredPermission_def ROUTE_PERMISSIONS_def)
  then show ?thesis by auto
qed

theorem resolver_range_witness:
  "getRequiredPermission ''TRACE'' ''no-slash'' \<in> {''read'', ''write'', ''delete''} \<and>
   getRequiredPermission ''TRACE'' ''no-slash'' = ''write''"
  using resolver_range [of "''TRACE''" "''no-slash''"]
  by (simp add: resolver_eval)

section \<open>Properties of the access tokens\<close>

text \<open>
  C3. With a key pair for which the library opens every token it has signed, and a
  verification clock before the second at which the token expires, a token issued by
  \<open>signAccessToken\<close> for any subject, role and permission list is accepted by
  \<open>verifyAccessToken\<close> under the same configuration, and the payload returned carries
  exactly that subject, role and permission list.
\<close>

theorem verify_issued_token:
  assumes "\<forall>h c. jose_open pub (jose_sign priv h c) = Some (h, c)"
    and "now' div 1000 < now div 1000 + 15 * 60"
  shows "\<exists>tok p. signAccessToken jose_sign e (Inr priv) now payload = Inr tok \<and>
           verifyAccessToken jose_open e (Inr pub) now' tok = Inr p \<and>
           p_sub p = sub payload \<and> p_role p = role payload \<and>
           p_permissions p = Some (permissions payload)"
  using assms
  by (simp add: signAccessToken_def verifyAccessToken_def jwtVerify_def Let_def)

theorem verify_issued_token_witness:
  "\<exists>tok p. signAccessToken toy_sign Map.empty (Inr 7) 5000 alice_input = Inr tok \<and>
     verifyAccessToken toy_open Map.empty (Inr 7) 904999 tok = Inr p \<and>
     p_sub p = ''alice'' \<and> p_role p = ''agent'' \<and> p_permissions p = Some [''read'', ''write'']"
proof -
  have k: "\<forall>h c. toy_open 7 (toy_sign 7 h c) = Some (h, c)"
    by (simp add: toy_open_def toy_sign_def)
  have w: "(904999::int) div 1000 < 5000 div 1000 + 15 * 60" by simp
  from verify_issued_token
         [where jose_open = toy_open and jose_sign = toy_sign and pub = 7 and priv = 7
            and now = 5000 and now' = 904999 and e = Map.empty and payload = alice_input]
       k w
  show ?thesis by (simp add: alice_input_def)
qed

lemma verify_expired:
  "signAccessToken jose_sign e (Inr priv) now payload = Inr tok \<Longrightarrow>
   \<forall>h c. jose_open pub (jose_sign priv h c) = Some (h, c) \<Longrightarrow>
   now div 1000 + 15 * 60 \<le> now' div 1000 \<Longrightarrow>
   verifyAccessToken jose_open e (Inr pub) now' tok = Inl VerificationFailed"
  by (auto simp: signAccessToken_def verifyAccessToken_def jwtVerify_def Let_def)

section \<open>Properties of the authorization gate\<close>



lemma headers_set_None: "headers_set hs name v = None \<Longrightarrow> headers_set hs' name v = None"
  by (simp add: headers_set_def split: if_splits)




lemma normalize_value_clean:
  assumes "v = [] \<or> (\<not> http_whitespace (hd v) \<and> \<not> http_whitespace (last v))"
  shows "normalize_value v = v"
proof (cases v)
  case Nil
  then show ?thesis by (simp add: normalize_value_def)
next
  case (Cons c cs)
  with assms have h: "\<not> http_whitespace (hd v)" and l: "\<not> http_whitespace (last v)" by auto
  from Cons h have a: "dropWhile http_whitespace v = v" by simp
  from Cons have ne: "rev v \<noteq> []" by simp
  then obtain d ds where r: "rev v = d # ds" by (cases "rev v") auto
  from Cons have "hd (rev v) = last v" by (simp add: hd_rev)
  with r l have "\<not> http_whitespace d" by simp
  with r have b: "dropWhile http_whitespace (rev v) = rev v" by simp
  show ?thesis by (simp add: normalize_value_def a b)
qed





section \<open>Roles of the issued tokens\<close>

lemma login_role:
  assumes "response (login_POST sign e forwarded now body backend uuid now' la st) = TokenResponse tok c"
  shows "\<exists>apiKey uid. body = BodyValid apiKey \<and> backend apiKey = MeOk uid \<and>
           sign \<lparr>sub = uid,
                 role = role_name (if uid \<in> set (admin_ids e) then Admin else Agent),
                 permissions = ROLE_PERMISSIONS (if uid \<in> set (admin_ids e) then Admin else Agent)\<rparr>
             = Inr tok"
proof -
  obtain ok la1 where c: "checkRateLimit (client_ip forwarded) now la = (ok, la1)"
    by (cases "checkRateLimit (client_ip forwarded) now la")
  show ?thesis
    using assms c
    by (auto simp: login_POST_def Let_def
        split: if_splits login_body.splits me_response.splits prod.splits sum.splits)
qed

lemma refresh_role:
  assumes "fst (refresh_POST sign cookie now uuid now' st) = TokenResponse tok c"
  shows "\<exists>uid. sign \<lparr>sub = uid, role = ''agent'', permissions = [''read'', ''write'']\<rparr> = Inr tok"
  using assms
  by (auto simp: refresh_POST_def split: option.splits if_splits prod.splits sum.splits)

text \<open>
  C2 asks that every access token issued for a user of the administrative list carries
  the role \<open>admin\<close> and its four permissions, on login and on refresh alike. The login
  handler does this (\<open>login_role\<close>); the refresh handler signs every token with the role
  \<open>agent\<close> and the two permissions \<open>read\<close> and \<open>write\<close> (\<open>refresh_role\<close>). The
  run below is the failing input: \<open>alice\<close> is on the list, her login token is an
  administrator's, and the token she gets when she rotates the session of that login is
  an agent's.
\<close>

theorem refresh_drops_admin_role:
  "''alice'' \<in> set (admin_ids admin_env) \<and>
   response (login_POST Inr admin_env None 0 (BodyValid ''key-1'') (\<lambda>k. MeOk ''alice'') ''id1'' 100
              [] empty_store) =
     TokenResponse \<lparr>sub = ''alice'', role = ''admin'',
                     permissions = [''read'', ''write'', ''delete'', ''admin'']\<rparr> ''id1'' \<and>
   store_after (login_POST Inr admin_env None 0 (BodyValid ''key-1'') (\<lambda>k. MeOk ''alice'') ''id1'' 100
              [] empty_store) = alice_store \<and>
   fst (refresh_POST Inr (Some ''id1'') 200 ''id2'' 201 alice_store) =
     TokenResponse \<lparr>sub = ''alice'', role = ''agent'', permissions = [''read'', ''write'']\<rparr> ''id2''"
proof -
  have a: "admin_ids admin_env = [''alice'', ''bob'']"
    by (simp add: admin_ids_def admin_env_def trim_def WHITE_SPACE_def)
  have l: "login_POST Inr admin_env None 0 (BodyValid ''key-1'') (\<lambda>k. MeOk ''alice'') ''id1'' 100
              [] empty_store =
           \<lparr>response = TokenResponse \<lparr>sub = ''alice'', role = ''admin'',
                     permissions = [''read'', ''write'', ''delete'', ''admin'']\<rparr> ''id1'',
            attempts_after = [(''unknown'', \<lparr>count = 1, windowStart = 0\<rparr>)],
            store_after = alice_store\<rparr>"
  proof -
    have c: "createSession ''alice'' ''key-1'' ''id1'' 100 empty_store = (''id1'', alice_store)"
      by (simp add: alice_store_def createSession_def Let_def)
    show ?thesis
      by (simp add: login_POST_def a c client_ip_def checkRateLimit_def)
  qed
  have r: "fst (refresh_POST Inr (Some ''id1'') 200 ''id2'' 201 alice_store) =
     TokenResponse \<lparr>sub = ''alice'', role = ''agent'', permissions = [''read'', ''write'']\<rparr> ''id2''"
    by (simp add: refresh_POST_def alice_consume)
  from a l r show ?thesis by simp
qed

end
